theory Spec2Isabelle
  imports Main
begin

section \<open>JavaScript values and strings\<close>

text \<open>
  A JavaScript string is a sequence of code units. The model uses \<open>string\<close>, so it covers
  the strings whose code units lie in U+0000..U+00FF; one \<open>char\<close> is one code unit.

  \<open>isSafeUrl\<close> is declared with a \<open>string\<close> parameter, but its first statement tests
  the argument at run time (\<open>!url || typeof url !== 'string'\<close>), so the argument is a
  value that may or may not be a string. Of a value that is not a string the code only
  observes its truthiness and that \<open>typeof\<close> is not \<open>'string'\<close>.
\<close>

datatype js_value = JSString string | JSNonString bool

fun truthy :: "js_value \<Rightarrow> bool" where
  "truthy (JSString s) = (s \<noteq> [])"
| "truthy (JSNonString t) = t"

fun typeof_is_string :: "js_value \<Rightarrow> bool" where
  "typeof_is_string (JSString s) = True"
| "typeof_is_string (JSNonString t) = False"

definition CR :: char where "CR = CHR 0x0D"
definition LF :: char where "LF = CHR 0x0A"
definition TAB :: char where "TAB = CHR 0x09"

text \<open>
  \<open>String.prototype.toLowerCase\<close> on code units below 256: the letters A..Z and
  U+00C0..U+00DE without U+00D7 move up by 32, every other code unit stays.
\<close>

definition toLowerCase_char :: "char \<Rightarrow> char" where
  "toLowerCase_char c =
     (let n = (of_char c :: nat)
      in if (65 \<le> n \<and> n \<le> 90) \<or> (192 \<le> n \<and> n \<le> 222 \<and> n \<noteq> 215)
         then char_of (n + 32) else c)"

definition toLowerCase :: "string \<Rightarrow> string" where
  "toLowerCase s = map toLowerCase_char s"

text \<open>\<open>s.startsWith(p)\<close>\<close>

definition startsWith :: "string \<Rightarrow> string \<Rightarrow> bool" where
  "startsWith s p = (take (length p) s = p)"

text \<open>\<open>s.indexOf(c)\<close> for a one-character search string: the first index, or -1.\<close>

fun indexOf :: "string \<Rightarrow> char \<Rightarrow> int" where
  "indexOf [] c = - 1"
| "indexOf (x # xs) c =
     (if x = c then 0
      else (let i = indexOf xs c in if i = - 1 then - 1 else i + 1))"

section \<open>The two patterns\<close>

text \<open>\<open>/[\r\n\t]/.test(url)\<close>: some code unit of the string is CR, LF or TAB.\<close>

definition controlCharsPattern_test :: "string \<Rightarrow> bool" where
  "controlCharsPattern_test url = list_ex (\<lambda>c. c = CR \<or> c = LF \<or> c = TAB) url"

text \<open>
  \<open>/(^|\/)\.\.(\/|$)/.test(url)\<close>. The pattern has no flags, so \<open>^\<close> and \<open>$\<close> are the
  start and the end of the whole string. \<open>dotdot_then_boundary\<close> is the tail
  \<open>\.\.(\/|$)\<close> of the pattern matched at the head of the remaining input.
  The first group either matches empty at index 0 (\<open>^\<close>) or consumes one slash at
  any index (\<open>slash_dotdot_search\<close>).
\<close>

fun dotdot_then_boundary :: "string \<Rightarrow> bool" where
  "dotdot_then_boundary (a # b # rest) =
     (a = CHR ''.'' \<and> b = CHR ''.'' \<and> (case rest of [] \<Rightarrow> True | c # _ \<Rightarrow> c = CHR ''/''))"
| "dotdot_then_boundary _ = False"

fun slash_dotdot_search :: "string \<Rightarrow> bool" where
  "slash_dotdot_search [] = False"
| "slash_dotdot_search (c # cs) =
     ((c = CHR ''/'' \<and> dotdot_then_boundary cs) \<or> slash_dotdot_search cs)"

definition traversalPattern_test :: "string \<Rightarrow> bool" where
  "traversalPattern_test url = (dotdot_then_boundary url \<or> slash_dotdot_search url)"

section \<open>isSafeUrl\<close>

text \<open>
  \<open>SafeUrlOptions\<close>: both fields are optional; \<open>None\<close> is an absent (undefined) field,
  for which the destructuring in the first line of \<open>isSafeUrl\<close> supplies the default.
\<close>

record SafeUrlOptions =
  allowRelative :: "bool option"
  allowedProtocols :: "string list option"

definition allowRelative_of :: "SafeUrlOptions \<Rightarrow> bool" where
  "allowRelative_of options = (case allowRelative options of None \<Rightarrow> True | Some b \<Rightarrow> b)"

definition allowedProtocols_of :: "SafeUrlOptions \<Rightarrow> string list" where
  "allowedProtocols_of options =
     (case allowedProtocols options of None \<Rightarrow> [''http'', ''https''] | Some ps \<Rightarrow> ps)"

text \<open>The options argument itself defaults to \<open>{}\<close>.\<close>

definition default_options :: SafeUrlOptions where
  "default_options = \<lparr>allowRelative = None, allowedProtocols = None\<rparr>"

text \<open>
  \<open>allowedProtocols.some(protocol => urlLower.startsWith(`${protocol.toLowerCase()}://`))\<close>
  with \<open>urlLower = url.toLowerCase()\<close>.
\<close>

definition hasAllowedProtocol :: "string list \<Rightarrow> string \<Rightarrow> bool" where
  "hasAllowedProtocol allowed url =
     (let urlLower = toLowerCase url
      in list_ex (\<lambda>protocol. startsWith urlLower (toLowerCase protocol @ ''://'')) allowed)"

definition hasProtocol :: "string \<Rightarrow> bool" where
  "hasProtocol url =
     (let colonIndex = indexOf url (CHR '':'');
          slashIndex = indexOf url (CHR ''/'')
      in colonIndex \<noteq> - 1 \<and> (slashIndex = - 1 \<or> colonIndex < slashIndex))"

definition isSafeUrl :: "js_value \<Rightarrow> SafeUrlOptions \<Rightarrow> bool" where
  "isSafeUrl v options =
     (if \<not> truthy v \<or> \<not> typeof_is_string v then False
      else (case v of
          JSNonString t \<Rightarrow> False
        | JSString url \<Rightarrow>
            if controlCharsPattern_test url then False
            else if traversalPattern_test url then False
            else if hasAllowedProtocol (allowedProtocols_of options) url then True
            else if hasProtocol url then False
            else if \<not> allowRelative_of options then False
            else True))"

section \<open>safeFetch\<close>

text \<open>
  The input of \<open>safeFetch\<close> is a string, a \<open>URL\<close> object (carried here by the string
  its \<open>toString()\<close> returns) or another object; of the latter the code asks whether it has
  a property \<open>url\<close> (\<open>None\<close> when it has none) and what type its value has.

  The function is \<open>async\<close>: it either throws (the promise is rejected with the error,
  whose message is kept) or ends in the call \<open>fetch(input, init)\<close>, whose arguments are
  kept. The variable \<open>urlStr\<close> is assigned in three branches and read only in the
  message of the second \<open>throw\<close>.
\<close>

datatype fetch_input = InputString string | InputURL string | InputObject "js_value option"

datatype 'init outcome = Threw string | Fetch fetch_input 'init

definition securityViolationMessage :: "string \<Rightarrow> string" where
  "securityViolationMessage urlStr =
     ''Security Violation: URL contains unsafe characters or traversal attempts: ''
       @ [CHR 0x22] @ urlStr @ [CHR 0x22]"

definition safeFetch :: "fetch_input \<Rightarrow> 'init \<Rightarrow> 'init outcome" where
  "safeFetch input init =
     (case input of
        InputString s \<Rightarrow> Fetch input init
      | InputURL href \<Rightarrow> Fetch input init
      | InputObject (Some (JSString u)) \<Rightarrow> Threw (securityViolationMessage u)
      | InputObject (Some (JSNonString t)) \<Rightarrow>
          Threw ''Request object does not have a valid URL string.''
      | InputObject None \<Rightarrow> Fetch input init)"

text \<open>
  The string that \<open>safeFetch\<close> extracts from its input into \<open>urlStr\<close>, where it
  extracts one.
\<close>

definition urlStr_of :: "fetch_input \<Rightarrow> string option" where
  "urlStr_of input =
     (case input of
        InputString s \<Rightarrow> Some s
      | InputURL href \<Rightarrow> Some href
      | InputObject (Some (JSString u)) \<Rightarrow> Some u
      | InputObject _ \<Rightarrow> None)"

section \<open>Notions of the specification\<close>

text \<open>
  The specification's words for the traversal rule: \<open>..\<close> occurs as a complete path
  segment, that is, immediately preceded by the start of the string or a slash and
  immediately followed by a slash or the end of the string.
\<close>

definition dotdot_segment :: "string \<Rightarrow> bool" where
  "dotdot_segment url =
     (\<exists>pre post. url = pre @ ''..'' @ post \<and>
        (pre = [] \<or> last pre = CHR ''/'') \<and> (post = [] \<or> hd post = CHR ''/''))"

text \<open>The text before the first colon of a string: its scheme, when it has one.\<close>

definition scheme_of :: "string \<Rightarrow> string" where
  "scheme_of url = takeWhile (\<lambda>c. c \<noteq> CHR '':'') url"

text \<open>
  The string begins, case-insensitively, with \<open>p://\<close>: it is some \<open>u\<close>, then
  \<open>://\<close>, then anything, where \<open>u\<close> and \<open>p\<close> agree up to case.
\<close>

definition begins_with_scheme :: "string \<Rightarrow> string \<Rightarrow> bool" where
  "begins_with_scheme url p = (\<exists>u w. url = u @ ''://'' @ w \<and> toLowerCase u = toLowerCase p)"

section \<open>Basic facts\<close>

lemma isSafeUrl_string:
  "isSafeUrl (JSString url) options =
     (url \<noteq> [] \<and> \<not> controlCharsPattern_test url \<and> \<not> traversalPattern_test url \<and>
      (hasAllowedProtocol (allowedProtocols_of options) url \<or>
       (\<not> hasProtocol url \<and> allowRelative_of options)))"
  by (simp add: isSafeUrl_def)

subsection \<open>indexOf and the scheme test\<close>

lemma indexOf_ge: "- 1 \<le> indexOf s c"
  by (induction s) (auto simp: Let_def)

lemma indexOf_eq_minus1: "indexOf s c = - 1 \<longleftrightarrow> c \<notin> set s"
proof (induction s)
  case Nil show ?case by simp
next
  case (Cons x xs)
  have "- 1 \<le> indexOf xs c" by (rule indexOf_ge)
  with Cons show ?case by (auto simp: Let_def)
qed

lemma indexOf_takeWhile:
  "c \<in> set s \<Longrightarrow> indexOf s c = int (length (takeWhile (\<lambda>x. x \<noteq> c) s))"
  by (induction s) (auto simp: Let_def indexOf_eq_minus1)

lemma indexOf_eq:
  "indexOf s c = (if c \<in> set s then int (length (takeWhile (\<lambda>x. x \<noteq> c) s)) else - 1)"
  using indexOf_takeWhile [of c s] indexOf_eq_minus1 [of s c] by simp

lemma takeWhile_order:
  "a \<noteq> b \<Longrightarrow> a \<in> set s \<Longrightarrow> b \<in> set s \<Longrightarrow>
   length (takeWhile (\<lambda>x. x \<noteq> a) s) < length (takeWhile (\<lambda>x. x \<noteq> b) s) \<longleftrightarrow>
   b \<notin> set (takeWhile (\<lambda>x. x \<noteq> a) s)"
  by (induction s) auto

lemma index_order:
  assumes "a \<noteq> b"
  shows "(indexOf s a \<noteq> - 1 \<and> (indexOf s b = - 1 \<or> indexOf s a < indexOf s b)) \<longleftrightarrow>
   (a \<in> set s \<and> b \<notin> set (takeWhile (\<lambda>x. x \<noteq> a) s))"
proof (cases "a \<in> set s")
  case False
  then show ?thesis by (simp add: indexOf_eq)
next
  case a: True
  show ?thesis
  proof (cases "b \<in> set s")
    case False
    then have "b \<notin> set (takeWhile (\<lambda>x. x \<noteq> a) s)"
      by (auto dest: set_takeWhileD)
    with a False show ?thesis by (simp add: indexOf_eq)
  next
    case True
    with a assms show ?thesis
      by (simp add: indexOf_eq takeWhile_order)
  qed
qed

lemma hasProtocol_iff:
  "hasProtocol url \<longleftrightarrow>
     CHR '':'' \<in> set url \<and> CHR ''/'' \<notin> set (takeWhile (\<lambda>x. x \<noteq> CHR '':'') url)"
  unfolding hasProtocol_def Let_def by (rule index_order) simp

lemma lc_colon: "toLowerCase_char c = CHR '':'' \<longleftrightarrow> c = CHR '':''"
  apply (auto simp add: toLowerCase_char_def Let_def char_of_eq_iff take_bit_eq_mod)
  done

lemma lc_slash: "toLowerCase_char c = CHR ''/'' \<longleftrightarrow> c = CHR ''/''"
  apply (auto simp add: toLowerCase_char_def Let_def char_of_eq_iff take_bit_eq_mod)
  done


lemma dotdot_then_boundary_iff:
  "dotdot_then_boundary s \<longleftrightarrow> (\<exists>post. s = ''..'' @ post \<and> (post = [] \<or> hd post = CHR ''/''))"
  by (cases s rule: dotdot_then_boundary.cases) (auto split: list.splits)

lemma slash_dotdot_search_iff:
  "slash_dotdot_search s \<longleftrightarrow>
     (\<exists>pre post. s = pre @ ''/..'' @ post \<and> (post = [] \<or> hd post = CHR ''/''))"
proof (induction s)
  case Nil show ?case by simp
next
  case (Cons c cs)
  show ?case (is "?L \<longleftrightarrow> ?R")
  proof
    assume ?L
    then consider (here) "c = CHR ''/''" "dotdot_then_boundary cs" | (later) "slash_dotdot_search cs"
      by auto
    then show ?R
    proof cases
      case here
      then obtain post where "cs = ''..'' @ post" "post = [] \<or> hd post = CHR ''/''"
        by (auto simp: dotdot_then_boundary_iff)
      with here have "c # cs = [] @ ''/..'' @ post" by simp
      with \<open>post = [] \<or> hd post = CHR ''/''\<close> show ?thesis by blast
    next
      case later
      with Cons obtain pre post where "cs = pre @ ''/..'' @ post" "post = [] \<or> hd post = CHR ''/''"
        by auto
      then have "c # cs = (c # pre) @ ''/..'' @ post" by simp
      with \<open>post = [] \<or> hd post = CHR ''/''\<close> show ?thesis by blast
    qed
  next
    assume ?R
    then obtain pre post where eq: "c # cs = pre @ ''/..'' @ post"
      and b: "post = [] \<or> hd post = CHR ''/''" by blast
    show ?L
    proof (cases pre)
      case Nil
      with eq have "c = CHR ''/''" "cs = ''..'' @ post" by simp_all
      with b show ?thesis by (auto simp: dotdot_then_boundary_iff)
    next
      case (Cons d pre')
      with eq have "cs = pre' @ ''/..'' @ post" by simp
      with b Cons.IH show ?thesis by auto
    qed
  qed
qed

lemma traversalPattern_test_iff: "traversalPattern_test url \<longleftrightarrow> dotdot_segment url"
proof
  assume "traversalPattern_test url"
  then consider (start) "dotdot_then_boundary url" | (inner) "slash_dotdot_search url"
    by (auto simp: traversalPattern_test_def)
  then show "dotdot_segment url"
  proof cases
    case start
    then obtain post where "url = [] @ ''..'' @ post" "post = [] \<or> hd post = CHR ''/''"
      by (auto simp: dotdot_then_boundary_iff)
    then show ?thesis unfolding dotdot_segment_def by blast
  next
    case inner
    then obtain pre post where "url = pre @ ''/..'' @ post" "post = [] \<or> hd post = CHR ''/''"
      by (auto simp: slash_dotdot_search_iff)
    then have "url = (pre @ ''/'') @ ''..'' @ post" "last (pre @ ''/'') = CHR ''/''"
      "post = [] \<or> hd post = CHR ''/''" by simp_all
    then show ?thesis unfolding dotdot_segment_def by blast
  qed
next
  assume "dotdot_segment url"
  then obtain pre post where eq: "url = pre @ ''..'' @ post"
    and l: "pre = [] \<or> last pre = CHR ''/''" and r: "post = [] \<or> hd post = CHR ''/''"
    unfolding dotdot_segment_def by blast
  show "traversalPattern_test url"
  proof (cases "pre = []")
    case True
    with eq r have "dotdot_then_boundary url" by (auto simp: dotdot_then_boundary_iff)
    then show ?thesis by (simp add: traversalPattern_test_def)
  next
    case False
    with l have "pre = butlast pre @ ''/''" by (metis append_butlast_last_id)
    with eq have "url = butlast pre @ ''/..'' @ post" by (metis append.assoc append_Cons append_Nil)
    with r have "slash_dotdot_search url" unfolding slash_dotdot_search_iff by blast
    then show ?thesis by (simp add: traversalPattern_test_def)
  qed
qed



lemma startsWith_iff: "startsWith s p \<longleftrightarrow> (\<exists>r. s = p @ r)"
proof
  assume "startsWith s p"
  then have "s = p @ drop (length p) s"
    unfolding startsWith_def by (metis append_take_drop_id)
  then show "\<exists>r. s = p @ r" ..
next
  assume "\<exists>r. s = p @ r"
  then show "startsWith s p" by (auto simp: startsWith_def)
qed

lemma lower_scheme_sep:
  assumes "toLowerCase v = ''://'' @ r" shows "\<exists>w. v = ''://'' @ w"
proof -
  from assms obtain a b c w where v: "v = a # b # c # w"
    and "toLowerCase_char a = CHR '':''" "toLowerCase_char b = CHR ''/''" "toLowerCase_char c = CHR ''/''"
    unfolding toLowerCase_def by (auto simp: map_eq_Cons_conv)
  then have "a = CHR '':''" "b = CHR ''/''" "c = CHR ''/''"
    by (simp_all only: lc_colon lc_slash)
  with v show ?thesis by simp
qed

lemma startsWith_lower_split:
  assumes "startsWith (toLowerCase url) (toLowerCase p @ ''://'')"
  shows "\<exists>u w. url = u @ ''://'' @ w \<and> toLowerCase u = toLowerCase p"
proof -
  from assms obtain r where "toLowerCase url = toLowerCase p @ ''://'' @ r"
    by (auto simp: startsWith_iff)
  then obtain u v where uv: "url = u @ v" "toLowerCase u = toLowerCase p" "toLowerCase v = ''://'' @ r"
    unfolding toLowerCase_def by (auto simp: map_eq_append_conv)
  from lower_scheme_sep [OF uv(3)] obtain w where "v = ''://'' @ w" by blast
  with uv show ?thesis by blast
qed

lemma lower_mem:
  assumes eq: "toLowerCase u = toLowerCase p"
    and fix_c: "\<And>d. toLowerCase_char d = c \<longleftrightarrow> d = c"
  shows "c \<in> set u \<longleftrightarrow> c \<in> set p"
proof -
  have *: "c \<in> set (toLowerCase w) \<longleftrightarrow> c \<in> set w" for w
  proof
    assume "c \<in> set (toLowerCase w)"
    then obtain x where "x \<in> set w" "toLowerCase_char x = c"
      by (auto simp: toLowerCase_def)
    with fix_c show "c \<in> set w" by simp
  next
    assume "c \<in> set w"
    moreover have "toLowerCase_char c = c" using fix_c by simp
    ultimately show "c \<in> set (toLowerCase w)"
      unfolding toLowerCase_def set_map by (metis imageI)
  qed
  from eq * [of u] * [of p] show ?thesis by simp
qed

lemma lower_colon_mem: "toLowerCase u = toLowerCase p \<Longrightarrow> CHR '':'' \<in> set u \<longleftrightarrow> CHR '':'' \<in> set p"
  using lower_mem [of u p "CHR '':''"] by (simp add: lc_colon)

lemma lower_slash_mem: "toLowerCase u = toLowerCase p \<Longrightarrow> CHR ''/'' \<in> set u \<longleftrightarrow> CHR ''/'' \<in> set p"
  using lower_mem [of u p "CHR ''/''"] by (simp add: lc_slash)


lemma hasAllowedProtocol_iff:
  "hasAllowedProtocol allowed url \<longleftrightarrow>
     (\<exists>p \<in> set allowed. startsWith (toLowerCase url) (toLowerCase p @ ''://''))"
  by (simp add: hasAllowedProtocol_def list_ex_iff)

lemma hasAllowedProtocol_scheme:
  assumes "hasAllowedProtocol allowed url" and "\<forall>p \<in> set allowed. CHR '':'' \<notin> set p"
  shows "toLowerCase (scheme_of url) \<in> toLowerCase ` set allowed"
proof -
  from assms(1) obtain p where p: "p \<in> set allowed"
    and "startsWith (toLowerCase url) (toLowerCase p @ ''://'')"
    by (auto simp: hasAllowedProtocol_iff)
  then obtain u w where uw: "url = u @ ''://'' @ w" "toLowerCase u = toLowerCase p"
    using startsWith_lower_split by blast
  from p assms(2) have "CHR '':'' \<notin> set p" by blast
  with lower_colon_mem [OF uw(2)] have "CHR '':'' \<notin> set u" by simp
  then have "takeWhile (\<lambda>c. c \<noteq> CHR '':'') (u @ CHR '':'' # ''//'' @ w) = u"
    by (subst takeWhile_tail) auto
  with uw(1) have "scheme_of url = u"
    by (simp add: scheme_of_def)
  with uw(2) p show ?thesis by auto
qed

lemma hasAllowedProtocol_schemeless:
  assumes "hasAllowedProtocol allowed url" and "\<not> hasProtocol url"
  shows "\<exists>p \<in> set allowed. CHR ''/'' \<in> set p"
proof -
  from assms(1) obtain p where p: "p \<in> set allowed"
    and "startsWith (toLowerCase url) (toLowerCase p @ ''://'')"
    by (auto simp: hasAllowedProtocol_iff)
  then obtain u w where uw: "url = u @ ''://'' @ w" "toLowerCase u = toLowerCase p"
    using startsWith_lower_split by blast
  from uw(1) have "CHR '':'' \<in> set url" by simp
  with assms(2) have "CHR ''/'' \<in> set (takeWhile (\<lambda>x. x \<noteq> CHR '':'') url)"
    by (simp add: hasProtocol_iff)
  moreover from uw(1) have "takeWhile (\<lambda>x. x \<noteq> CHR '':'') url = takeWhile (\<lambda>x. x \<noteq> CHR '':'') u"
    by (simp add: takeWhile_tail)
  ultimately have "CHR ''/'' \<in> set u" by (auto dest: set_takeWhileD)
  with lower_slash_mem [OF uw(2)] have "CHR ''/'' \<in> set p" by simp
  with p show ?thesis by blast
qed

subsection \<open>Prefixes, case and the allowlist\<close>

lemma lower_sep [simp]: "toLowerCase ''://'' = ''://''"
  using lc_colon [of "CHR '':''"] lc_slash [of "CHR ''/''"] by (simp add: toLowerCase_def)

lemma toLowerCase_append: "toLowerCase (a @ b) = toLowerCase a @ toLowerCase b"
  by (simp add: toLowerCase_def)

lemma begins_with_scheme_iff:
  "begins_with_scheme url p \<longleftrightarrow> startsWith (toLowerCase url) (toLowerCase p @ ''://'')"
proof
  assume "begins_with_scheme url p"
  then obtain u w where "url = u @ ''://'' @ w" "toLowerCase u = toLowerCase p"
    unfolding begins_with_scheme_def by blast
  then have "toLowerCase url = (toLowerCase p @ ''://'') @ toLowerCase w"
    using lower_sep by (simp only: toLowerCase_append append_assoc)
  then show "startsWith (toLowerCase url) (toLowerCase p @ ''://'')"
    unfolding startsWith_iff by blast
next
  assume "startsWith (toLowerCase url) (toLowerCase p @ ''://'')"
  from startsWith_lower_split [OF this] show "begins_with_scheme url p"
    unfolding begins_with_scheme_def .
qed

lemma hasAllowedProtocol_spec:
  "hasAllowedProtocol allowed url \<longleftrightarrow> (\<exists>p \<in> set allowed. begins_with_scheme url p)"
  by (simp add: hasAllowedProtocol_iff begins_with_scheme_iff)

lemma leading_slash_no_protocol: "\<not> hasProtocol (CHR ''/'' # rest)"
  by (simp add: hasProtocol_iff)

lemma leading_slash_allowed:
  assumes "hasAllowedProtocol allowed (CHR ''/'' # rest)"
  shows "\<exists>p \<in> set allowed. startsWith p ''/''"
proof -
  from assms obtain p u w where p: "p \<in> set allowed"
    and eq: "CHR ''/'' # rest = u @ ''://'' @ w" and low: "toLowerCase u = toLowerCase p"
    unfolding hasAllowedProtocol_spec begins_with_scheme_def by blast
  from eq obtain u' where u: "u = CHR ''/'' # u'" by (cases u) auto
  with low obtain c p' where p': "p = c # p'" "toLowerCase_char c = CHR ''/''"
    using lc_slash [of "CHR ''/''"] by (cases p) (auto simp: toLowerCase_def)
  then have "c = CHR ''/''" by (simp only: lc_slash)
  with p' have "startsWith p ''/''" by (simp add: startsWith_def)
  with p show ?thesis by blast
qed

lemma controlChars_iff:
  "controlCharsPattern_test url \<longleftrightarrow> CR \<in> set url \<or> LF \<in> set url \<or> TAB \<in> set url"
  by (auto simp: controlCharsPattern_test_def list_ex_iff)

lemmas eval_defs = controlCharsPattern_test_def CR_def LF_def TAB_def traversalPattern_test_def
  hasProtocol_def allowRelative_of_def allowedProtocols_of_def default_options_def

lemma startsWith_two_slashes: "startsWith url ''//'' \<Longrightarrow> \<exists>rest. url = CHR ''/'' # CHR ''/'' # rest"
  by (auto simp: startsWith_iff)

section \<open>Claims\<close>

text \<open>
  C9: \<open>isSafeUrl\<close> returns \<open>false\<close> for the empty string and for every value that is not a
  string, under every configuration. The function has no statement that can throw on
  arguments of its declared types, so the model is a total function into \<open>bool\<close>.
\<close>

theorem isSafeUrl_degenerate_false:
  "isSafeUrl (JSString []) options = False \<and> isSafeUrl (JSNonString t) options = False"
  by (simp add: isSafeUrl_def)

theorem isSafeUrl_degenerate_false_witness:
  "isSafeUrl (JSString []) default_options = False \<and>
   isSafeUrl (JSNonString True) default_options = False"
  using isSafeUrl_degenerate_false [of default_options True] by simp

text \<open>
  C2: a string that contains a carriage return, a line feed or a tab anywhere is rejected,
  under every configuration.
\<close>

theorem control_character_rejected:
  assumes "c \<in> set url" and "c = CR \<or> c = LF \<or> c = TAB"
  shows "isSafeUrl (JSString url) options = False"
  using assms by (auto simp: isSafeUrl_string controlChars_iff)

theorem control_character_rejected_witness:
  "CR \<in> set (''https://example.com/api'' @ [CR]) \<and>
   isSafeUrl (JSString (''https://example.com/api'' @ [CR])) default_options = False"
  using control_character_rejected [of CR "''https://example.com/api'' @ [CR]" default_options]
  by simp

text \<open>
  C3: a string in which \<open>..\<close> occurs as a complete path segment is rejected under every
  configuration; a string in which \<open>..\<close> occurs, but never as a complete segment, is
  accepted when no other veto applies: no control character, not the disallowed-scheme
  veto (a scheme and no allowlisted prefix), not the relative-URL gate (no scheme, no
  allowlisted prefix and \<open>allowRelative\<close> false).
\<close>

theorem traversal_segment_rule:
  "(dotdot_segment url \<longrightarrow> isSafeUrl (JSString url) options = False) \<and>
   ((\<exists>pre post. url = pre @ ''..'' @ post) \<and> \<not> dotdot_segment url \<and>
    \<not> controlCharsPattern_test url \<and>
    \<not> (\<not> hasAllowedProtocol (allowedProtocols_of options) url \<and> hasProtocol url) \<and>
    \<not> (\<not> hasAllowedProtocol (allowedProtocols_of options) url \<and> \<not> hasProtocol url \<and>
       \<not> allowRelative_of options)
    \<longrightarrow> isSafeUrl (JSString url) options = True)"
  by (auto simp: isSafeUrl_string traversalPattern_test_iff)

theorem traversal_segment_rule_witness:
  "dotdot_segment ''../etc/passwd'' \<and>
   isSafeUrl (JSString ''../etc/passwd'') default_options = False \<and>
   (\<exists>pre post. ''a..b'' = pre @ ''..'' @ post) \<and> \<not> dotdot_segment ''a..b'' \<and>
   isSafeUrl (JSString ''a..b'') default_options = True"
proof -
  have seg: "dotdot_segment ''../etc/passwd''"
    unfolding traversalPattern_test_iff [symmetric] by (simp add: traversalPattern_test_def)
  have occ: "\<exists>pre post. ''a..b'' = pre @ ''..'' @ post"
    by (rule exI [of _ "''a''"], rule exI [of _ "''b''"]) simp
  have inner: "\<not> dotdot_segment ''a..b''"
    unfolding traversalPattern_test_iff [symmetric] by (simp add: traversalPattern_test_def)
  have ctl: "\<not> controlCharsPattern_test ''a..b''" by (simp add: eval_defs)
  have rel: "\<not> hasProtocol ''a..b''" "allowRelative_of default_options" by (simp_all add: eval_defs)
  from traversal_segment_rule [of "''../etc/passwd''" default_options] seg
  have "isSafeUrl (JSString ''../etc/passwd'') default_options = False" by blast
  moreover from traversal_segment_rule [of "''a..b''" default_options] occ inner ctl rel
  have "isSafeUrl (JSString ''a..b'') default_options = True" by blast
  ultimately show ?thesis using seg occ inner by blast
qed

text \<open>
  C4: the entries of \<open>allowedProtocols\<close> are scheme names, documented as written
  without the colon. A string that begins, case-insensitively, with \<open>p://\<close> for an
  allowlisted \<open>p\<close> is accepted when it has no control character and no \<open>..\<close> segment.
  A scheme-bearing string that begins with no allowlisted \<open>p://\<close> is rejected, whatever
  \<open>allowRelative\<close> is; with no colon in any allowlist entry, that is every
  scheme-bearing string whose scheme, the text before its first colon, is not in the
  allowlist up to case.
\<close>

theorem protocol_allowlist_rule:
  "((\<exists>p \<in> set (allowedProtocols_of options). begins_with_scheme url p) \<and>
      \<not> controlCharsPattern_test url \<and> \<not> dotdot_segment url
      \<longrightarrow> isSafeUrl (JSString url) options = True) \<and>
   (hasProtocol url \<and> \<not> (\<exists>p \<in> set (allowedProtocols_of options). begins_with_scheme url p)
      \<longrightarrow> isSafeUrl (JSString url) options = False) \<and>
   (hasProtocol url \<and> (\<forall>p \<in> set (allowedProtocols_of options). CHR '':'' \<notin> set p) \<and>
      toLowerCase (scheme_of url) \<notin> set (map toLowerCase (allowedProtocols_of options))
      \<longrightarrow> isSafeUrl (JSString url) options = False)"
proof (intro conjI impI)
  assume a: "(\<exists>p \<in> set (allowedProtocols_of options). begins_with_scheme url p) \<and>
      \<not> controlCharsPattern_test url \<and> \<not> dotdot_segment url"
  then have "url \<noteq> []" by (auto simp: begins_with_scheme_def)
  with a show "isSafeUrl (JSString url) options = True"
    by (simp add: isSafeUrl_string traversalPattern_test_iff hasAllowedProtocol_spec)
next
  assume "hasProtocol url \<and>
    \<not> (\<exists>p \<in> set (allowedProtocols_of options). begins_with_scheme url p)"
  then show "isSafeUrl (JSString url) options = False"
    by (simp add: isSafeUrl_string hasAllowedProtocol_spec)
next
  assume a: "hasProtocol url \<and> (\<forall>p \<in> set (allowedProtocols_of options). CHR '':'' \<notin> set p) \<and>
      toLowerCase (scheme_of url) \<notin> set (map toLowerCase (allowedProtocols_of options))"
  then have "\<not> hasAllowedProtocol (allowedProtocols_of options) url"
    using hasAllowedProtocol_scheme [of "allowedProtocols_of options" url] by auto
  with a show "isSafeUrl (JSString url) options = False"
    by (simp add: isSafeUrl_string)
qed

theorem protocol_allowlist_rule_witness:
  "begins_with_scheme ''HTTP://example.com/page'' ''http'' \<and>
   isSafeUrl (JSString ''HTTP://example.com/page'') default_options = True \<and>
   hasProtocol ''javascript:alert(1)'' \<and>
   toLowerCase (scheme_of ''javascript:alert(1)'')
     \<notin> set (map toLowerCase (allowedProtocols_of default_options)) \<and>
   isSafeUrl (JSString ''javascript:alert(1)'') default_options = False"
proof -
  have b: "begins_with_scheme ''HTTP://example.com/page'' ''http''"
    unfolding begins_with_scheme_iff by code_simp
  have m: "''http'' \<in> set (allowedProtocols_of default_options)" by code_simp
  have c: "\<not> controlCharsPattern_test ''HTTP://example.com/page''" by code_simp
  have t: "\<not> dotdot_segment ''HTTP://example.com/page''"
    unfolding traversalPattern_test_iff [symmetric] by code_simp
  have h: "hasProtocol ''javascript:alert(1)''" by code_simp
  have n: "\<forall>p \<in> set (allowedProtocols_of default_options). CHR '':'' \<notin> set p" by code_simp
  have s: "toLowerCase (scheme_of ''javascript:alert(1)'')
     \<notin> set (map toLowerCase (allowedProtocols_of default_options))" by code_simp
  from protocol_allowlist_rule [of default_options "''HTTP://example.com/page''"] b m c t
  have "isSafeUrl (JSString ''HTTP://example.com/page'') default_options = True" by blast
  moreover from protocol_allowlist_rule [of default_options "''javascript:alert(1)''"] h n s
  have "isSafeUrl (JSString ''javascript:alert(1)'') default_options = False" by blast
  ultimately show ?thesis using b h s by blast
qed

text \<open>
  C5, as amended: with the empty allowlist every scheme-bearing string is rejected, and
  for a schemeless string that is not empty and has no control character and no \<open>..\<close>
  segment the decision is the value of \<open>allowRelative\<close>.
\<close>

theorem empty_allowlist_rule:
  assumes "allowedProtocols options = Some []"
  shows "(hasProtocol url \<longrightarrow> isSafeUrl (JSString url) options = False) \<and>
    (\<not> hasProtocol url \<and> url \<noteq> [] \<and> \<not> controlCharsPattern_test url \<and> \<not> dotdot_segment url
       \<longrightarrow> isSafeUrl (JSString url) options = allowRelative_of options)"
proof -
  from assms have "\<not> hasAllowedProtocol (allowedProtocols_of options) url"
    by (simp add: allowedProtocols_of_def hasAllowedProtocol_def)
  then show ?thesis by (auto simp: isSafeUrl_string traversalPattern_test_iff)
qed

text \<open>
  The claim as stated fails for a schemeless string that an earlier veto rejects:
  \<open>../etc/passwd\<close> is rejected although \<open>allowRelative\<close> is true.
\<close>

theorem empty_allowlist_counterexample:
  "allowedProtocols \<lparr>allowRelative = Some True, allowedProtocols = Some []\<rparr> = Some [] \<and>
   \<not> hasProtocol ''../etc/passwd'' \<and>
   isSafeUrl (JSString ''../etc/passwd'') \<lparr>allowRelative = Some True, allowedProtocols = Some []\<rparr>
     \<noteq> allowRelative_of \<lparr>allowRelative = Some True, allowedProtocols = Some []\<rparr>"
  by code_simp

theorem empty_allowlist_rule_witness:
  "allowedProtocols \<lparr>allowRelative = Some True, allowedProtocols = Some []\<rparr> = Some [] \<and>
   hasProtocol ''https://example.com'' \<and>
   isSafeUrl (JSString ''https://example.com'')
     \<lparr>allowRelative = Some True, allowedProtocols = Some []\<rparr> = False \<and>
   \<not> hasProtocol ''/api/data'' \<and>
   isSafeUrl (JSString ''/api/data'') \<lparr>allowRelative = Some True, allowedProtocols = Some []\<rparr>
     = True"
proof -
  let ?o = "\<lparr>allowRelative = Some True, allowedProtocols = Some []\<rparr>"
  have e: "allowedProtocols ?o = Some []" by simp
  have h: "hasProtocol ''https://example.com''" by code_simp
  have r: "\<not> hasProtocol ''/api/data''" "''/api/data'' \<noteq> []"
    "\<not> controlCharsPattern_test ''/api/data''" by code_simp+
  have t: "\<not> dotdot_segment ''/api/data''"
    unfolding traversalPattern_test_iff [symmetric] by code_simp
  have a: "allowRelative_of ?o = True" by code_simp
  from empty_allowlist_rule [OF e, of "''https://example.com''"] h
  have "isSafeUrl (JSString ''https://example.com'') ?o = False" by blast
  moreover from empty_allowlist_rule [OF e, of "''/api/data''"] r t a
  have "isSafeUrl (JSString ''/api/data'') ?o = True" by simp
  ultimately show ?thesis using e h r by blast
qed

text \<open>
  C6: the entries of \<open>allowedProtocols\<close> are scheme names, so none contains a slash.
  With \<open>allowRelative\<close> false, every schemeless string is then rejected, whatever else
  it contains; more generally, so is every schemeless string that begins with no
  allowlisted \<open>p://\<close>. A control character or a \<open>..\<close> segment rejects under every
  configuration, so those rejections do not depend on \<open>allowRelative\<close>.
\<close>

theorem relative_gate_rule:
  "(allowRelative options = Some False \<and> \<not> hasProtocol url \<and>
      \<not> hasAllowedProtocol (allowedProtocols_of options) url
      \<longrightarrow> isSafeUrl (JSString url) options = False) \<and>
   (allowRelative options = Some False \<and> \<not> hasProtocol url \<and>
      (\<forall>p \<in> set (allowedProtocols_of options). CHR ''/'' \<notin> set p)
      \<longrightarrow> isSafeUrl (JSString url) options = False) \<and>
   (controlCharsPattern_test url \<or> dotdot_segment url
      \<longrightarrow> isSafeUrl (JSString url) options = False)"
proof (intro conjI impI)
  assume "allowRelative options = Some False \<and> \<not> hasProtocol url \<and>
      \<not> hasAllowedProtocol (allowedProtocols_of options) url"
  then show "isSafeUrl (JSString url) options = False"
    by (simp add: isSafeUrl_string allowRelative_of_def)
next
  assume a: "allowRelative options = Some False \<and> \<not> hasProtocol url \<and>
      (\<forall>p \<in> set (allowedProtocols_of options). CHR ''/'' \<notin> set p)"
  then have "\<not> hasAllowedProtocol (allowedProtocols_of options) url"
    using hasAllowedProtocol_schemeless [of "allowedProtocols_of options" url] by blast
  with a show "isSafeUrl (JSString url) options = False"
    by (simp add: isSafeUrl_string allowRelative_of_def)
next
  assume "controlCharsPattern_test url \<or> dotdot_segment url"
  then show "isSafeUrl (JSString url) options = False"
    by (auto simp: isSafeUrl_string traversalPattern_test_iff)
qed

theorem relative_gate_rule_witness:
  "allowRelative \<lparr>allowRelative = Some False, allowedProtocols = None\<rparr> = Some False \<and>
   \<not> hasProtocol ''/api/users/123'' \<and>
   isSafeUrl (JSString ''/api/users/123'') \<lparr>allowRelative = Some False, allowedProtocols = None\<rparr>
     = False \<and>
   controlCharsPattern_test (''/api'' @ [TAB]) \<and>
   isSafeUrl (JSString (''/api'' @ [TAB])) \<lparr>allowRelative = Some False, allowedProtocols = None\<rparr>
     = False"
proof -
  let ?o = "\<lparr>allowRelative = Some False, allowedProtocols = None\<rparr>"
  have a: "allowRelative ?o = Some False" by simp
  have r: "\<not> hasProtocol ''/api/users/123''" by code_simp
  have n: "\<not> hasAllowedProtocol (allowedProtocols_of ?o) ''/api/users/123''" by code_simp
  have s: "\<forall>p \<in> set (allowedProtocols_of ?o). CHR ''/'' \<notin> set p" by code_simp
  have c: "controlCharsPattern_test (''/api'' @ [TAB])" by code_simp
  from relative_gate_rule [of ?o "''/api/users/123''"] a r n s
  have "isSafeUrl (JSString ''/api/users/123'') ?o = False" by blast
  moreover from relative_gate_rule [of ?o "''/api'' @ [TAB]"] c
  have "isSafeUrl (JSString (''/api'' @ [TAB])) ?o = False" by blast
  ultimately show ?thesis using a r c by blast
qed

text \<open>
  C7: a string that begins with \<open>//\<close> is never scheme-bearing. The entries of
  \<open>allowedProtocols\<close> are scheme names, so none begins with a slash; the string is then
  accepted iff \<open>allowRelative\<close> is true and it has no control character and no \<open>..\<close>
  segment, whatever the allowlist is. In general it is accepted iff neither veto fires
  and either \<open>allowRelative\<close> is true or it begins with an allowlisted \<open>p://\<close>.
\<close>

theorem protocol_relative_rule:
  assumes "startsWith url ''//''"
  shows "\<not> hasProtocol url \<and>
    (isSafeUrl (JSString url) options \<longleftrightarrow>
       \<not> controlCharsPattern_test url \<and> \<not> dotdot_segment url \<and>
       (allowRelative_of options \<or> hasAllowedProtocol (allowedProtocols_of options) url)) \<and>
    ((\<forall>p \<in> set (allowedProtocols_of options). \<not> startsWith p ''/'') \<longrightarrow>
       (isSafeUrl (JSString url) options \<longleftrightarrow>
          allowRelative_of options \<and> \<not> controlCharsPattern_test url \<and> \<not> dotdot_segment url))"
proof -
  from startsWith_two_slashes [OF assms] obtain rest where url: "url = CHR ''/'' # CHR ''/'' # rest"
    by blast
  then have np: "\<not> hasProtocol url" by (simp add: leading_slash_no_protocol)
  have ne: "url \<noteq> []" using url by simp
  have gen: "isSafeUrl (JSString url) options \<longleftrightarrow>
       \<not> controlCharsPattern_test url \<and> \<not> dotdot_segment url \<and>
       (allowRelative_of options \<or> hasAllowedProtocol (allowedProtocols_of options) url)"
    using np ne by (auto simp: isSafeUrl_string traversalPattern_test_iff)
  have "\<not> hasAllowedProtocol (allowedProtocols_of options) url"
    if "\<forall>p \<in> set (allowedProtocols_of options). \<not> startsWith p ''/''"
    using that leading_slash_allowed [of "allowedProtocols_of options" "CHR ''/'' # rest"] url
    by blast
  with gen np show ?thesis by blast
qed

theorem protocol_relative_rule_witness:
  "startsWith ''//example.com/page'' ''//'' \<and>
   \<not> hasProtocol ''//example.com/page'' \<and>
   isSafeUrl (JSString ''//example.com/page'') default_options"
proof -
  have s: "startsWith ''//example.com/page'' ''//''" by code_simp
  have n: "\<forall>p \<in> set (allowedProtocols_of default_options). \<not> startsWith p ''/''" by code_simp
  have a: "allowRelative_of default_options" by code_simp
  have c: "\<not> controlCharsPattern_test ''//example.com/page''" by code_simp
  have t: "\<not> dotdot_segment ''//example.com/page''"
    unfolding traversalPattern_test_iff [symmetric] by code_simp
  from protocol_relative_rule [OF s, of default_options] n a c t s show ?thesis by blast
qed

text \<open>
  C8: the traversal test fires exactly on a literal \<open>..\<close> with the start of the string or a
  slash on its left and a slash or the end of the string on its right. A non-empty string
  with no such segment and no control character is accepted when it begins with an
  allowlisted \<open>p://\<close>, or is schemeless with \<open>allowRelative\<close> true. The percent-encoded
  example and the backslash example pass both checks and are accepted under these
  conditions.
\<close>

theorem literal_traversal_only:
  "(traversalPattern_test url \<longleftrightarrow> dotdot_segment url) \<and>
   (url \<noteq> [] \<and> \<not> controlCharsPattern_test url \<and> \<not> dotdot_segment url \<and>
      (hasAllowedProtocol (allowedProtocols_of options) url \<or>
       (\<not> hasProtocol url \<and> allowRelative_of options))
      \<longrightarrow> isSafeUrl (JSString url) options = True) \<and>
   \<not> controlCharsPattern_test ''https://example.com/api/%2e%2e/secret'' \<and>
   \<not> traversalPattern_test ''https://example.com/api/%2e%2e/secret'' \<and>
   (hasAllowedProtocol (allowedProtocols_of options) ''https://example.com/api/%2e%2e/secret''
      \<longrightarrow> isSafeUrl (JSString ''https://example.com/api/%2e%2e/secret'') options = True) \<and>
   \<not> controlCharsPattern_test (''..'' @ [CHR 0x5C] @ ''Windows'' @ [CHR 0x5C] @ ''System32'') \<and>
   \<not> traversalPattern_test (''..'' @ [CHR 0x5C] @ ''Windows'' @ [CHR 0x5C] @ ''System32'') \<and>
   \<not> hasProtocol (''..'' @ [CHR 0x5C] @ ''Windows'' @ [CHR 0x5C] @ ''System32'') \<and>
   (allowRelative_of options
      \<longrightarrow> isSafeUrl (JSString (''..'' @ [CHR 0x5C] @ ''Windows'' @ [CHR 0x5C] @ ''System32''))
            options = True)"
proof -
  let ?e = "''https://example.com/api/%2e%2e/secret''"
  let ?b = "''..'' @ [CHR 0x5C] @ ''Windows'' @ [CHR 0x5C] @ ''System32''"
  have gen: "url \<noteq> [] \<and> \<not> controlCharsPattern_test url \<and> \<not> dotdot_segment url \<and>
      (hasAllowedProtocol (allowedProtocols_of options) url \<or>
       (\<not> hasProtocol url \<and> allowRelative_of options))
      \<longrightarrow> isSafeUrl (JSString url) options = True"
    by (simp add: isSafeUrl_string traversalPattern_test_iff)
  have e: "\<not> controlCharsPattern_test ?e" "\<not> traversalPattern_test ?e" by code_simp+
  have b: "\<not> controlCharsPattern_test ?b" "\<not> traversalPattern_test ?b" "\<not> hasProtocol ?b"
    by code_simp+
  have ee: "hasAllowedProtocol (allowedProtocols_of options) ?e
      \<longrightarrow> isSafeUrl (JSString ?e) options = True"
    using e by (simp only: isSafeUrl_string) simp
  have bb: "allowRelative_of options \<longrightarrow> isSafeUrl (JSString ?b) options = True"
    using b by (simp only: isSafeUrl_string) simp
  from traversalPattern_test_iff [of url] gen e b ee bb show ?thesis by blast
qed

theorem literal_traversal_only_witness:
  "isSafeUrl (JSString ''https://example.com/api/%2e%2e/secret'') default_options = True \<and>
   isSafeUrl (JSString (''..'' @ [CHR 0x5C] @ ''Windows'' @ [CHR 0x5C] @ ''System32''))
     default_options = True"
proof -
  have h: "hasAllowedProtocol (allowedProtocols_of default_options)
     ''https://example.com/api/%2e%2e/secret''" by code_simp
  have a: "allowRelative_of default_options" by code_simp
  from literal_traversal_only [of "''https://example.com/api/%2e%2e/secret''" default_options]
    h a show ?thesis by blast
qed

text \<open>
  C10: for an input object whose \<open>url\<close> property is a string, \<open>safeFetch\<close> throws the
  security-violation error and never reaches \<open>fetch\<close>, also when \<open>isSafeUrl\<close> would
  accept that string: the \<open>throw\<close> in that branch is unconditional.
\<close>

theorem descriptor_always_throws:
  "safeFetch (InputObject (Some (JSString u))) init = Threw (securityViolationMessage u)"
  by (simp add: safeFetch_def)

theorem descriptor_always_throws_witness:
  "isSafeUrl (JSString ''https://example.com/good'') default_options = True \<and>
   safeFetch (InputObject (Some (JSString ''https://example.com/good''))) () =
     Threw (securityViolationMessage ''https://example.com/good'')"
proof -
  have "isSafeUrl (JSString ''https://example.com/good'') default_options = True"
    by code_simp
  with descriptor_always_throws [of "''https://example.com/good''" "()"] show ?thesis by simp
qed

text \<open>
  C1 (the code departs from it): \<open>safeFetch\<close> is to call \<open>fetch\<close> only when
  \<open>isSafeUrl\<close> accepts the extracted string. The code never calls \<open>isSafeUrl\<close>:
  for the string input of the repository's own test, which \<open>isSafeUrl\<close> rejects,
  \<open>safeFetch\<close> ends in \<open>fetch(input, init)\<close>.
\<close>

theorem safeFetch_skips_validation:
  "urlStr_of (InputString ''https://example.com/../bad'') = Some ''https://example.com/../bad'' \<and>
   isSafeUrl (JSString ''https://example.com/../bad'') default_options = False \<and>
   safeFetch (InputString ''https://example.com/../bad'') () =
     Fetch (InputString ''https://example.com/../bad'') ()"
  by (simp add: isSafeUrl_string traversalPattern_test_def safeFetch_def urlStr_of_def)

theorem safeFetch_skips_validation_witness:
  "\<not> isSafeUrl (JSString ''https://example.com/../bad'') default_options \<and>
   safeFetch (InputString ''https://example.com/../bad'') () \<noteq>
     Threw (securityViolationMessage ''https://example.com/../bad'')"
  using safeFetch_skips_validation by simp

end
